theory Spec2Isabelle
  imports Main "HOL-Library.FSet" "HOL-Library.Sublist" "HOL-Library.Char_ord"
    "HOL-Library.List_Lexorder"
begin

section \<open>Disposable e-mail domain list: normalisation, allowlist and refresh cycle\<close>

text \<open>
  A shallow embedding of \<^verbatim>\<open>blacklist-email.py\<close>.

  Text is a \<^typ>\<open>string\<close>: a list of characters, each read as a code point below 256, so
  the development covers Python strings over that range. On it \<open>str.isspace\<close> and
  \<open>str.lower\<close> are the functions \<open>isspace\<close> and \<open>lower_char\<close> below.
  A Python \<open>set\<close> of strings is a finite set, \<^typ>\<open>string fset\<close>; \<open>len\<close> of it is
  \<^const>\<open>fcard\<close>, counted in \<^typ>\<open>int\<close> as Python does.
\<close>

subsection \<open>String methods used by the program\<close>

definition isspace :: "char \<Rightarrow> bool" where
  "isspace c = ((of_char c :: nat) \<in> {9, 10, 11, 12, 13, 28, 29, 30, 31, 32, 133, 160})"

definition str_strip :: "string \<Rightarrow> string" where
  "str_strip s = rev (dropWhile isspace (rev (dropWhile isspace s)))"

function str_replace :: "string \<Rightarrow> string \<Rightarrow> string \<Rightarrow> string" where
  "str_replace old new [] = (if old = [] then new else [])"
| "str_replace old new (c # cs) =
     (if old = [] then new @ c # str_replace old new cs
      else if prefix old (c # cs) then new @ str_replace old new (drop (length old) (c # cs))
      else c # str_replace old new cs)"
  by pat_completeness auto
termination
  by (relation "measure (\<lambda>(old, new, s). length s)") auto

definition str_startswith :: "string \<Rightarrow> string \<Rightarrow> bool" where
  "str_startswith s p = prefix p s"

text \<open>\<open>s.split(sep)\<close> for a one-character separator: never the empty list.\<close>

fun str_split :: "char \<Rightarrow> string \<Rightarrow> string list" where
  "str_split sep [] = [[]]"
| "str_split sep (c # cs) =
     (if c = sep then [] # str_split sep cs
      else (case str_split sep cs of
              [] \<Rightarrow> [[c]]
            | p # ps \<Rightarrow> (c # p) # ps))"

text \<open>\<open>s.split(sep, 1)\<close>: at most one cut, at the first occurrence of the separator.\<close>

definition str_split1 :: "char \<Rightarrow> string \<Rightarrow> string list" where
  "str_split1 sep s =
     (if sep \<in> set s
      then [takeWhile (\<lambda>c. c \<noteq> sep) s, drop 1 (dropWhile (\<lambda>c. c \<noteq> sep) s)]
      else [s])"

fun str_join :: "string \<Rightarrow> string list \<Rightarrow> string" where
  "str_join sep [] = []"
| "str_join sep [x] = x"
| "str_join sep (x # y # ys) = x @ sep @ str_join sep (y # ys)"

definition lower_char :: "char \<Rightarrow> char" where
  "lower_char c =
     (let n = (of_char c :: nat)
      in if (65 \<le> n \<and> n \<le> 90) \<or> (192 \<le> n \<and> n \<le> 222 \<and> n \<noteq> 215)
         then char_of (n + 32) else c)"

definition str_lower :: "string \<Rightarrow> string" where
  "str_lower s = map lower_char s"

subsection \<open>The normaliser\<close>

definition normalize_domain :: "string \<Rightarrow> string" where
  "normalize_domain entry =
     (let domain = str_strip entry in
      if domain = [] then []
      else
        let domain = str_replace ''## '' [] domain in
        if str_startswith domain ''#'' then []
        else
          let domain = (if CHR ''#'' \<in> set domain
                        then str_strip (str_split1 (CHR ''#'') domain ! 0)
                        else domain) in
          if domain = [] then []
          else
            let domain = (if CHR ''@'' \<in> set domain
                          then str_split1 (CHR ''@'') domain ! 1
                          else domain);
                cleaned = str_join ''.'' (filter (\<lambda>segment. segment \<noteq> [])
                                              (str_split (CHR ''.'') domain)) in
            if cleaned = [] then []
            else
              let parts = str_split (CHR ''.'') cleaned;
                  cleaned = (if length parts > 2
                             then str_join ''.'' (drop (length parts - 2) parts)
                             else cleaned)
              in str_lower cleaned)"

subsection \<open>The normaliser as the specification words it\<close>

text \<open>
  The eight rules of the specification, each a step that yields a value or stops with
  "empty" (\<open>None\<close>); the steps are written from the prose, independently of the code above.
\<close>

fun delete_marker :: "string \<Rightarrow> string" where
  "delete_marker (a # b # c # rest) =
     (if a = CHR ''#'' \<and> b = CHR ''#'' \<and> c = CHR '' '' then delete_marker rest
      else a # delete_marker (b # c # rest))"
| "delete_marker s = s"

definition trim :: "string \<Rightarrow> string" where
  "trim s = rev (dropWhile isspace (rev (dropWhile isspace s)))"

definition rule1 :: "string \<Rightarrow> string option" where
  "rule1 raw = (let t = trim raw in if t = [] then None else Some t)"

definition rule2 :: "string \<Rightarrow> string option" where
  "rule2 s = Some (delete_marker s)"

definition rule3 :: "string \<Rightarrow> string option" where
  "rule3 s = (case s of [] \<Rightarrow> Some s | c # _ \<Rightarrow> if c = CHR ''#'' then None else Some s)"

definition rule4 :: "string \<Rightarrow> string option" where
  "rule4 s =
     (if CHR ''#'' \<in> set s
      then (let t = trim (takeWhile (\<lambda>c. c \<noteq> CHR ''#'') s) in if t = [] then None else Some t)
      else Some s)"

definition rule5 :: "string \<Rightarrow> string option" where
  "rule5 s = Some (if CHR ''@'' \<in> set s then tl (dropWhile (\<lambda>c. c \<noteq> CHR ''@'') s) else s)"

definition rule6 :: "string \<Rightarrow> string option" where
  "rule6 s =
     (let labels = filter (\<lambda>l. l \<noteq> []) (str_split (CHR ''.'') s)
      in if labels = [] then None else Some (str_join ''.'' labels))"

definition rule7 :: "string \<Rightarrow> string option" where
  "rule7 s =
     (let labels = str_split (CHR ''.'') s; n = length labels
      in Some (if n > 2 then labels ! (n - 2) @ ''.'' @ labels ! (n - 1) else s))"

definition rule8 :: "string \<Rightarrow> string option" where
  "rule8 s = Some (map lower_char s)"

definition normalize_spec :: "string \<Rightarrow> string" where
  "normalize_spec raw =
     (case Option.bind (Option.bind (Option.bind (Option.bind (Option.bind (Option.bind
             (Option.bind (rule1 raw) rule2) rule3) rule4) rule5) rule6) rule7) rule8 of
        None \<Rightarrow> []
      | Some d \<Rightarrow> d)"

subsection \<open>The text a domain is cut from\<close>

text \<open>
  Two names for stating what the normaliser returns. The kept text of a line is the trimmed
  line with its \<open>"## "\<close> markers deleted, cut before the first \<open>#\<close> and trimmed again if
  there is one, and then cut behind the first \<open>@\<close> if there is one. The kept labels are the
  last two of its non-empty dot-separated labels, or all of them when there are fewer.
\<close>

definition kept_text :: "string \<Rightarrow> string" where
  "kept_text entry =
     (let line = str_replace ''## '' [] (str_strip entry);
          body = (if CHR ''#'' \<in> set line
                  then str_strip (takeWhile (\<lambda>c. c \<noteq> CHR ''#'') line)
                  else line)
      in if CHR ''@'' \<in> set body then tl (dropWhile (\<lambda>c. c \<noteq> CHR ''@'') body) else body)"

definition kept_labels :: "string \<Rightarrow> string list" where
  "kept_labels entry =
     (let labels = filter (\<lambda>l. l \<noteq> []) (str_split (CHR ''.'') (kept_text entry))
      in drop (length labels - 2) labels)"

subsection \<open>Logging\<close>

text \<open>
  \<open>log\<close> prints one line; the model keeps the level and the message of every line printed,
  in order, and leaves the wall-clock timestamp out.
\<close>

datatype level = INFO | WARN

type_synonym log_entry = "level \<times> string"

definition log :: "string \<Rightarrow> level \<Rightarrow> log_entry list" where
  "log message lvl = [(lvl, message)]"

function str_nat :: "nat \<Rightarrow> string" where
  "str_nat n = (if n < 10 then [char_of (48 + n)] else str_nat (n div 10) @ [char_of (48 + n mod 10)])"
  by pat_completeness auto
termination
  by (relation "measure (\<lambda>n. n)") auto

definition str_int :: "int \<Rightarrow> string" where
  "str_int i = (if i < 0 then ''-'' @ str_nat (nat (- i)) else str_nat (nat i))"

subsection \<open>The output file\<close>

text \<open>
  The program touches one file, the one \<open>resolve_path\<close> names; the state holds its text,
  \<open>None\<close> while the path does not exist, and the lines printed so far. Reading is
  Python's text mode with universal newlines: \<open>\r\n\<close> and \<open>\r\<close> arrive as \<open>\n\<close>, and
  iterating the file yields the lines with their terminator. Faults of the storage itself
  (a path that cannot be opened, bytes that are not UTF-8) are outside the model.
\<close>

record world =
  output_file :: "string option"
  console :: "log_entry list"

fun translate_newlines :: "string \<Rightarrow> string" where
  "translate_newlines [] = []"
| "translate_newlines (c # cs) =
     (if c = CHR 0x0D
      then CHR 0x0A # translate_newlines (if cs \<noteq> [] \<and> hd cs = CHR 0x0A then tl cs else cs)
      else c # translate_newlines cs)"

fun keepends :: "string \<Rightarrow> string list" where
  "keepends [] = []"
| "keepends (c # cs) =
     (if c = CHR 0x0A then [c] # keepends cs
      else (case keepends cs of
              [] \<Rightarrow> [[c]]
            | l # ls \<Rightarrow> (c # l) # ls))"

definition file_lines :: "string \<Rightarrow> string list" where
  "file_lines content = keepends (translate_newlines content)"

fun load_loop :: "string list \<Rightarrow> string fset \<Rightarrow> string fset" where
  "load_loop [] domains = domains"
| "load_loop (line # rest) domains =
     (let domain = normalize_domain line
      in load_loop rest (if domain \<noteq> [] then finsert domain domains else domains))"

definition load_existing_domains :: "string option \<Rightarrow> string fset" where
  "load_existing_domains file =
     (case file of
        None \<Rightarrow> {||}
      | Some content \<Rightarrow> load_loop (file_lines content) {||})"

definition write_domains :: "string fset \<Rightarrow> string" where
  "write_domains domains =
     concat (map (\<lambda>domain. domain @ [CHR 0x0A]) (sorted_list_of_fset domains))"

subsection \<open>Fetching\<close>

text \<open>
  What a URL answers is an input of the cycle: the raw lines the response yields, and how the
  stream ends, normally or with an exception raised by \<open>urlopen\<close> or by a later read (raised
  by \<open>urlopen\<close> itself, no line was yielded). The handler of \<open>fetch_domains_from_url\<close> names
  \<open>HTTPError\<close>, \<open>URLError\<close> and \<open>OSError\<close>; every other exception is \<open>OtherException\<close>.
  Raw lines are bytes; \<open>decode\<close> stands for \<open>bytes.decode("utf-8", errors="ignore")\<close> of the
  standard library, a total function, and is a parameter.
\<close>

datatype exn_class = HTTPError | URLError | OSError | OtherException

datatype exn = Exn exn_class string

datatype response = Response (res_lines: "string list") (res_end: "exn option")

definition handled :: "exn_class \<Rightarrow> bool" where
  "handled cls = (cls = HTTPError \<or> cls = URLError \<or> cls = OSError)"

text \<open>A response whose stream ends with an exception the handler does not name.\<close>

definition propagates :: "response \<Rightarrow> bool" where
  "propagates r = (case res_end r of None \<Rightarrow> False | Some (Exn cls exc) \<Rightarrow> \<not> handled cls)"

fun fetch_loop :: "(string \<Rightarrow> string) \<Rightarrow> string list \<Rightarrow> string fset \<Rightarrow> string fset" where
  "fetch_loop decode [] domains = domains"
| "fetch_loop decode (raw_line # rest) domains =
     (let domain = normalize_domain (decode raw_line)
      in fetch_loop decode rest (if domain \<noteq> [] then finsert domain domains else domains))"

definition fetch_domains_from_url ::
  "(string \<Rightarrow> string) \<Rightarrow> (string \<Rightarrow> response) \<Rightarrow> string \<Rightarrow> exn + string fset \<times> log_entry list" where
  "fetch_domains_from_url decode net url =
     (case net url of
        Response raw_lines ending \<Rightarrow>
          (let domains = fetch_loop decode raw_lines {||}
           in case ending of
                None \<Rightarrow> Inr (domains, [])
              | Some (Exn cls exc) \<Rightarrow>
                  if handled cls
                  then Inr (domains, log (''Unable to load '' @ url @ '': '' @ exc) WARN)
                  else Inl (Exn cls exc)))"

fun fetch_multiple_loop ::
  "(string \<Rightarrow> string) \<Rightarrow> (string \<Rightarrow> response) \<Rightarrow> string list \<Rightarrow> string fset \<Rightarrow> log_entry list
     \<Rightarrow> exn + string fset \<times> log_entry list" where
  "fetch_multiple_loop decode net [] aggregated out = Inr (aggregated, out)"
| "fetch_multiple_loop decode net (url # rest) aggregated out =
     (case fetch_domains_from_url decode net url of
        Inl e \<Rightarrow> Inl e
      | Inr (domains, printed) \<Rightarrow>
          fetch_multiple_loop decode net rest (aggregated |\<union>| domains) (out @ printed))"

definition fetch_multiple_sources ::
  "(string \<Rightarrow> string) \<Rightarrow> (string \<Rightarrow> response) \<Rightarrow> string list \<Rightarrow> exn + string fset \<times> log_entry list" where
  "fetch_multiple_sources decode net urls = fetch_multiple_loop decode net urls {||} []"

subsection \<open>Allowlist and the refresh cycle\<close>

definition apply_allowlist :: "string fset \<Rightarrow> string fset \<Rightarrow> string fset \<times> int" where
  "apply_allowlist domains allowlist =
     (if domains = {||} \<or> allowlist = {||} then (domains, 0)
      else (let filtered = domains |-| allowlist
            in (filtered, int (fcard domains) - int (fcard filtered))))"

text \<open>The uniform reading of the filter: plain set difference, counting the intersection.\<close>

definition allowlist_uniform :: "string fset \<Rightarrow> string fset \<Rightarrow> string fset \<times> int" where
  "allowlist_uniform candidates allow =
     (candidates |-| allow, int (fcard (candidates |\<inter>| allow)))"

definition ALLOWLIST_URL :: string where
  "ALLOWLIST_URL = ''https://raw.githubusercontent.com/disposable-email-domains/disposable-email-domains/refs/heads/main/allowlist.conf''"

definition SOURCE_URLS :: "string list" where
  "SOURCE_URLS =
     [''https://raw.githubusercontent.com/disposable/disposable-email-domains/refs/heads/master/domains.txt'',
      ''https://raw.githubusercontent.com/disposable-email-domains/disposable-email-domains/refs/heads/main/disposable_email_blocklist.conf'',
      ''https://raw.githubusercontent.com/7c/fakefilter/refs/heads/main/txt/data.txt'',
      ''https://raw.githubusercontent.com/wesbos/burner-email-providers/refs/heads/master/emails.txt'']"

definition process_sources ::
  "(string \<Rightarrow> string) \<Rightarrow> (string \<Rightarrow> response) \<Rightarrow> string list \<Rightarrow> world \<Rightarrow> exn + int \<times> world" where
  "process_sources decode net urls w =
     (let persisted_domains = load_existing_domains (output_file w)
      in case (if ALLOWLIST_URL \<noteq> [] then fetch_domains_from_url decode net ALLOWLIST_URL
               else Inr ({||}, [])) of
           Inl e \<Rightarrow> Inl e
         | Inr (allowlist_domains, out1) \<Rightarrow>
             (let out2 = (if ALLOWLIST_URL \<noteq> [] \<and> allowlist_domains = {||}
                          then out1 @ log ''Allowlist retrieval returned no entries; verification skipped.'' WARN
                          else out1);
                  (sanitized_existing, removed_existing) =
                     apply_allowlist persisted_domains allowlist_domains;
                  out3 = (if removed_existing \<noteq> 0
                          then out2 @ log (''Removed '' @ str_int removed_existing
                                             @ '' allowlisted domains from existing output.'') INFO
                          else out2)
              in case fetch_multiple_sources decode net urls of
                   Inl e \<Rightarrow> Inl e
                 | Inr (fetched_domains, out4) \<Rightarrow>
                     (let (filtered_fetched, skipped) =
                             apply_allowlist fetched_domains allowlist_domains;
                          out5 = (if skipped \<noteq> 0
                                  then out3 @ out4 @ log (''Skipped '' @ str_int skipped
                                         @ '' domains because they are explicitly allowlisted.'') INFO
                                  else out3 @ out4)
                      in if filtered_fetched = {||} \<and> removed_existing = 0
                         then Inr (0, w\<lparr>console := console w @ out5
                                          @ log ''No domains fetched; output file unchanged.'' INFO\<rparr>)
                         else
                           (let new_domains = filtered_fetched |-| sanitized_existing;
                                final_domains = sanitized_existing |\<union>| filtered_fetched
                            in if final_domains \<noteq> persisted_domains
                               then Inr (int (fcard new_domains),
                                         w\<lparr>output_file := Some (write_domains final_domains),
                                           console := console w @ out5
                                             @ (if new_domains \<noteq> {||}
                                                then log (''Added '' @ str_int (int (fcard new_domains))
                                                            @ '' new disposable domains.'') INFO
                                                else if removed_existing \<noteq> 0
                                                then log ''Output refreshed after removing allowlisted domains.'' INFO
                                                else [])\<rparr>)
                               else Inr (int (fcard new_domains),
                                         w\<lparr>console := console w @ out5
                                             @ log ''No new domains detected.'' INFO\<rparr>)))))"

subsection \<open>Remote answers used in the worked examples\<close>

text \<open>
  \<open>remote allow answers\<close> is the network in which the allowlist URL answers \<open>allow\<close>, the
  URLs listed in \<open>answers\<close> answer as listed, and every other URL cannot be reached.
\<close>

definition unreachable :: response where
  "unreachable = Response [] (Some (Exn URLError ''<urlopen error timed out>''))"

definition remote :: "response \<Rightarrow> (string \<times> response) list \<Rightarrow> string \<Rightarrow> response" where
  "remote allow answers url =
     (if url = ALLOWLIST_URL then allow
      else (case map_of answers url of Some r \<Rightarrow> r | None \<Rightarrow> unreachable))"

definition warn_unreachable :: "string \<Rightarrow> log_entry" where
  "warn_unreachable url = (WARN, ''Unable to load '' @ url @ '': <urlopen error timed out>'')"

definition warn_no_allowlist :: log_entry where
  "warn_no_allowlist = (WARN, ''Allowlist retrieval returned no entries; verification skipped.'')"

section \<open>Properties\<close>

subsection \<open>The normaliser follows the eight rules\<close>

lemma replace_marker_short:
  "str_replace ''## '' [] [] = []"
  "str_replace ''## '' [] [a] = [a]"
  "str_replace ''## '' [] [a, b] = [a, b]"
  by simp_all

lemma replace_marker_step:
  "str_replace ''## '' [] (a # b # c # rest) =
     (if a = CHR ''#'' \<and> b = CHR ''#'' \<and> c = CHR '' '' then str_replace ''## '' [] rest
      else a # str_replace ''## '' [] (b # c # rest))"
proof (cases "a = CHR ''#'' \<and> b = CHR ''#'' \<and> c = CHR '' ''")
  case True
  then show ?thesis by simp
next
  case False
  then have np: "\<not> prefix ''## '' (a # b # c # rest)" by auto
  have "str_replace ''## '' [] (a # b # c # rest) = a # str_replace ''## '' [] (b # c # rest)"
    by (subst str_replace.simps(2)) (simp only: np if_False list.simps)
  with False show ?thesis by (simp only: if_False)
qed

lemma delete_marker_replace: "delete_marker s = str_replace ''## '' [] s"
  by (induction s rule: delete_marker.induct)
     (simp_all del: str_replace.simps add: replace_marker_short replace_marker_step)

lemma drop_last_two:
  assumes "length parts > 2"
  shows "drop (length parts - 2) parts = [parts ! (length parts - 2), parts ! (length parts - 1)]"
proof (rule nth_equalityI)
  show "length (drop (length parts - 2) parts) = length [parts ! (length parts - 2), parts ! (length parts - 1)]"
    using assms by simp
next
  fix i assume "i < length (drop (length parts - 2) parts)"
  then have "i = 0 \<or> i = 1" using assms by auto
  moreover have "length parts - 2 + 1 = length parts - 1" using assms by arith
  ultimately show "drop (length parts - 2) parts ! i = [parts ! (length parts - 2), parts ! (length parts - 1)] ! i"
    using assms by auto
qed

lemma str_join_nonempty:
  "labels \<noteq> [] \<Longrightarrow> \<forall>l \<in> set labels. l \<noteq> [] \<Longrightarrow> str_join sep labels \<noteq> []"
  by (induction sep labels rule: str_join.induct) auto

lemma str_join_filter_empty:
  "str_join sep (filter (\<lambda>l. l \<noteq> []) xs) = [] \<longleftrightarrow> filter (\<lambda>l. l \<noteq> []) xs = []"
proof (cases "filter (\<lambda>l. l \<noteq> []) xs = []")
  case True
  then show ?thesis by (simp only: str_join.simps simp_thms)
next
  case False
  have "\<forall>l \<in> set (filter (\<lambda>l. l \<noteq> []) xs). l \<noteq> []" by simp
  with False have "str_join sep (filter (\<lambda>l. l \<noteq> []) xs) \<noteq> []"
    by (rule str_join_nonempty)
  with False show ?thesis by blast
qed

lemma trim_strip: "trim s = str_strip s"
  by (simp add: trim_def str_strip_def)

lemma startswith_hash: "str_startswith s ''#'' \<longleftrightarrow> (case s of [] \<Rightarrow> False | c # _ \<Rightarrow> c = CHR ''#'')"
  by (cases s) (auto simp: str_startswith_def)

lemma split1_nth:
  "c \<in> set s \<Longrightarrow> str_split1 c s ! 0 = takeWhile (\<lambda>x. x \<noteq> c) s"
  "c \<in> set s \<Longrightarrow> str_split1 c s ! Suc 0 = tl (dropWhile (\<lambda>x. x \<noteq> c) s)"
  by (simp_all add: str_split1_def drop_Suc)

lemma join_last_two:
  "length parts > 2 \<Longrightarrow> str_join ''.'' (drop (length parts - 2) parts)
     = parts ! (length parts - 2) @ ''.'' @ parts ! (length parts - 1)"
  by (simp add: drop_last_two)
lemma normalize_domain_refines:
  "normalize_domain entry = normalize_spec entry"
proof -
  define d1 where "d1 = str_strip entry"
  define d2 where "d2 = str_replace ''## '' [] d1"
  define d4 where "d4 = (if CHR ''#'' \<in> set d2 then str_strip (str_split1 (CHR ''#'') d2 ! 0) else d2)"
  define d5 where "d5 = (if CHR ''@'' \<in> set d4 then str_split1 (CHR ''@'') d4 ! 1 else d4)"
  define c6 where "c6 = str_join ''.'' (filter (\<lambda>segment. segment \<noteq> []) (str_split (CHR ''.'') d5))"
  define parts where "parts = str_split (CHR ''.'') c6"
  define c7 where "c7 = (if length parts > 2 then str_join ''.'' (drop (length parts - 2) parts) else c6)"
  have code: "normalize_domain entry =
      (if d1 = [] then [] else if str_startswith d2 ''#'' then [] else if d4 = [] then []
       else if c6 = [] then [] else str_lower c7)"
    unfolding normalize_domain_def Let_def c7_def parts_def c6_def d5_def d4_def d2_def d1_def
    by (rule refl)
  have r1: "rule1 entry = (if d1 = [] then None else Some d1)"
    by (simp add: rule1_def trim_strip d1_def)
  have r2: "rule2 d1 = Some d2"
    by (simp only: rule2_def delete_marker_replace d2_def)
  have r3: "rule3 d2 = (if str_startswith d2 ''#'' then None else Some d2)"
    by (cases d2) (simp_all add: rule3_def startswith_hash)
  have r4: "rule4 d2 = (if CHR ''#'' \<in> set d2 \<and> d4 = [] then None else Some d4)"
    by (simp add: rule4_def d4_def trim_strip split1_nth)
  have r5: "rule5 d4 = Some d5"
    by (simp add: rule5_def d5_def split1_nth)
  have r6: "rule6 d5 = (if c6 = [] then None else Some c6)"
    by (simp only: rule6_def c6_def Let_def str_join_filter_empty)
  have r7: "rule7 c6 = Some c7"
    by (simp add: rule7_def c7_def parts_def Let_def join_last_two)
  have r8: "rule8 c7 = Some (str_lower c7)"
    by (simp add: rule8_def str_lower_def)
  have e5: "rule5 [] = Some []"
    by (simp add: rule5_def)
  have e6: "rule6 [] = None"
    by (simp add: rule6_def)
  have spec: "normalize_spec entry =
      (if d1 = [] then [] else if str_startswith d2 ''#'' then [] else if d4 = [] then []
       else if c6 = [] then [] else str_lower c7)"
    by (simp add: normalize_spec_def r1 r2 r3 r4 r5 r6 r7 r8 e5 e6)
  show ?thesis
    by (simp only: code spec)
qed

text \<open>
  Claim C1. For every raw line, \<open>normalize_domain\<close> returns what the eight rules of the
  specification give when applied in order, stopping with the empty string as soon as a rule
  yields nothing: trim; delete every \<open>"## "\<close>; empty if the line then starts with \<open>#\<close>;
  cut at the first \<open>#\<close> and trim, empty if nothing is left; keep what follows the first
  \<open>@\<close>; split on dots, drop empty segments, rejoin, empty if nothing is left; keep the last
  two labels when there are more than two; lowercase. In particular the line
  \<open>"## FREE@MAIL.example.CO.UK  "\<close> becomes \<open>"co.uk"\<close>.
\<close>

theorem normalize_domain_pipeline:
  "normalize_domain entry = normalize_spec entry \<and>
   normalize_domain ''## FREE@MAIL.example.CO.UK  '' = ''co.uk''"
proof
  show "normalize_domain entry = normalize_spec entry"
    by (rule normalize_domain_refines)
  show "normalize_domain ''## FREE@MAIL.example.CO.UK  '' = ''co.uk''"
    by code_simp
qed

theorem normalize_domain_pipeline_witness:
  "normalize_domain ''user@Sub.Example.COM # note'' = ''example.com'' \<and>
   normalize_spec ''user@Sub.Example.COM # note'' = ''example.com''"
proof -
  have "normalize_domain ''user@Sub.Example.COM # note'' = ''example.com''"
    by code_simp
  with normalize_domain_pipeline [of "''user@Sub.Example.COM # note''"] show ?thesis
    by simp
qed

subsection \<open>What a normalised domain looks like\<close>

lemma of_char_lower:
  "(of_char (lower_char c) :: nat) =
     (if (65 \<le> (of_char c :: nat) \<and> (of_char c :: nat) \<le> 90) \<or>
         (192 \<le> (of_char c :: nat) \<and> (of_char c :: nat) \<le> 222 \<and> (of_char c :: nat) \<noteq> 215)
      then of_char c + 32 else of_char c)"
  by (auto simp: lower_char_def Let_def)

lemma lower_char_idem: "lower_char (lower_char c) = lower_char c"
proof -
  have "(of_char (lower_char (lower_char c)) :: nat) = of_char (lower_char c)"
    by (simp only: of_char_lower [of "lower_char c"]) (auto simp: of_char_lower)
  then show ?thesis by simp
qed

lemma lower_char_eq_hash: "lower_char c = CHR ''#'' \<Longrightarrow> c = CHR ''#''"
proof -
  assume "lower_char c = CHR ''#''"
  then have "(of_char (lower_char c) :: nat) = 35" by simp
  then have "(of_char c :: nat) = of_char (CHR ''#'')" by (auto simp: of_char_lower split: if_splits)
  then show ?thesis by (simp only: of_char_eq_iff)
qed

lemma lower_char_eq_at: "lower_char c = CHR ''@'' \<Longrightarrow> c = CHR ''@''"
proof -
  assume "lower_char c = CHR ''@''"
  then have "(of_char (lower_char c) :: nat) = 64" by simp
  then have "(of_char c :: nat) = of_char (CHR ''@'')" by (auto simp: of_char_lower split: if_splits)
  then show ?thesis by (simp only: of_char_eq_iff)
qed

lemma isspace_lower: "isspace (lower_char c) \<Longrightarrow> isspace c"
  by (auto simp: isspace_def of_char_lower split: if_splits)

lemma set_strip: "set (str_strip s) \<subseteq> set s"
proof
  fix x assume "x \<in> set (str_strip s)"
  then have "x \<in> set (dropWhile isspace (rev (dropWhile isspace s)))"
    by (simp add: str_strip_def)
  then have "x \<in> set (rev (dropWhile isspace s))" by (rule set_dropWhileD)
  then have "x \<in> set (dropWhile isspace s)" by simp
  then show "x \<in> set s" by (rule set_dropWhileD)
qed

lemma set_replace_del: "set (str_replace old [] s) \<subseteq> set s"
proof (induction old "[] :: string" s rule: str_replace.induct)
  case (1 old)
  then show ?case by simp
next
  case (2 old c cs)
  show ?case
  proof (cases "old = []")
    case True
    with 2 show ?thesis by auto
  next
    case False
    show ?thesis
    proof (cases "prefix old (c # cs)")
      case True
      with False 2 have "set (str_replace old [] (drop (length old) (c # cs))) \<subseteq> set (drop (length old) (c # cs))"
        by simp
      moreover have "set (drop (length old) (c # cs)) \<subseteq> set (c # cs)"
        by (rule set_drop_subset)
      ultimately show ?thesis using True False by auto
    next
      case np: False
      with False 2 show ?thesis by auto
    qed
  qed
qed

lemma set_split_all: "(\<Union>p \<in> set (str_split sep s). set p) \<subseteq> set s"
proof (induction s)
  case Nil
  then show ?case by simp
next
  case (Cons c cs)
  show ?case
  proof (cases "c = sep")
    case True
    with Cons show ?thesis by auto
  next
    case False
    show ?thesis
    proof (cases "str_split sep cs")
      case Nil
      with False show ?thesis by simp
    next
      case (Cons p ps)
      with False Cons.IH show ?thesis by auto
    qed
  qed
qed

lemma set_split: "p \<in> set (str_split sep s) \<Longrightarrow> set p \<subseteq> set s"
  using set_split_all [of sep s] by blast

lemma set_join: "set (str_join sep xs) \<subseteq> set sep \<union> \<Union> (set ` set xs)"
  by (induction sep xs rule: str_join.induct) auto

lemma normalize_domain_stages:
  assumes "normalize_domain entry \<noteq> []"
  obtains d2 d4 d5 c6 c7 where
    "d2 = str_replace ''## '' [] (str_strip entry)"
    "d4 = (if CHR ''#'' \<in> set d2 then str_strip (takeWhile (\<lambda>x. x \<noteq> CHR ''#'') d2) else d2)"
    "d5 = (if CHR ''@'' \<in> set d4 then tl (dropWhile (\<lambda>x. x \<noteq> CHR ''@'') d4) else d4)"
    "c6 = str_join ''.'' (filter (\<lambda>segment. segment \<noteq> []) (str_split (CHR ''.'') d5))"
    "c7 = (if length (str_split (CHR ''.'') c6) > 2
           then str_join ''.'' (drop (length (str_split (CHR ''.'') c6) - 2) (str_split (CHR ''.'') c6))
           else c6)"
    "normalize_domain entry = str_lower c7"
proof -
  define d1 where "d1 = str_strip entry"
  define d2 where "d2 = str_replace ''## '' [] d1"
  define d4 where "d4 = (if CHR ''#'' \<in> set d2 then str_strip (str_split1 (CHR ''#'') d2 ! 0) else d2)"
  define d5 where "d5 = (if CHR ''@'' \<in> set d4 then str_split1 (CHR ''@'') d4 ! 1 else d4)"
  define c6 where "c6 = str_join ''.'' (filter (\<lambda>segment. segment \<noteq> []) (str_split (CHR ''.'') d5))"
  define parts where "parts = str_split (CHR ''.'') c6"
  define c7 where "c7 = (if length parts > 2 then str_join ''.'' (drop (length parts - 2) parts) else c6)"
  have code: "normalize_domain entry =
      (if d1 = [] then [] else if str_startswith d2 ''#'' then [] else if d4 = [] then []
       else if c6 = [] then [] else str_lower c7)"
    unfolding normalize_domain_def Let_def c7_def parts_def c6_def d5_def d4_def d2_def d1_def
    by (rule refl)
  with assms have out: "normalize_domain entry = str_lower c7"
    by (simp split: if_splits)
  have d4': "d4 = (if CHR ''#'' \<in> set d2 then str_strip (takeWhile (\<lambda>x. x \<noteq> CHR ''#'') d2) else d2)"
    by (simp add: d4_def split1_nth)
  have d5': "d5 = (if CHR ''@'' \<in> set d4 then tl (dropWhile (\<lambda>x. x \<noteq> CHR ''@'') d4) else d4)"
    by (simp add: d5_def split1_nth)
  show thesis
    by (rule that [OF _ d4' d5' c6_def _ out]) (simp_all add: d2_def d1_def c7_def parts_def)
qed

lemma set_lower: "set (str_lower s) = lower_char ` set s"
  by (simp add: str_lower_def)

lemma set_tl_subset: "set (tl xs) \<subseteq> set xs"
  by (cases xs) auto

lemma split_no_sep: "p \<in> set (str_split sep s) \<Longrightarrow> sep \<notin> set p"
proof (induction s arbitrary: p)
  case Nil
  then show ?case by simp
next
  case (Cons c cs)
  show ?case
  proof (cases "c = sep")
    case True
    with Cons show ?thesis by auto
  next
    case False
    show ?thesis
    proof (cases "str_split sep cs")
      case Nil
      with False Cons.prems show ?thesis by simp
    next
      case (Cons q qs)
      with False Cons.prems Cons.IH show ?thesis by auto
    qed
  qed
qed

lemma split_without_sep: "sep \<notin> set x \<Longrightarrow> str_split sep x = [x]"
  by (induction x) auto

lemma split_append_sep:
  "sep \<notin> set x \<Longrightarrow> str_split sep (x @ sep # rest) = x # str_split sep rest"
  by (induction x) auto

lemma split_join:
  "labels \<noteq> [] \<Longrightarrow> \<forall>l \<in> set labels. sep \<notin> set l \<Longrightarrow>
   str_split sep (str_join [sep] labels) = labels"
proof (induction "[sep]" labels rule: str_join.induct)
  case 1
  then show ?case by simp
next
  case (2 x)
  then show ?case by (simp add: split_without_sep)
next
  case (3 x y ys)
  then have "str_split sep (str_join [sep] (y # ys)) = y # ys" by simp
  moreover have "sep \<notin> set x" using 3 by simp
  ultimately show ?case by (simp add: split_append_sep)
qed

lemma join_ends:
  "xs \<noteq> [] \<Longrightarrow> last xs \<noteq> [] \<Longrightarrow>
   str_join sep xs \<noteq> [] \<and> last (str_join sep xs) = last (last xs)"
  by (induction sep xs rule: str_join.induct) auto

lemma join_starts: "x \<noteq> [] \<Longrightarrow> hd (str_join sep (x # xs)) = hd x"
  by (cases xs) auto

lemma normalize_domain_labels:
  assumes "normalize_domain entry \<noteq> []"
  shows "normalize_domain entry = str_lower (str_join ''.'' (kept_labels entry))"
    and "kept_labels entry \<noteq> []"
    and "[] \<notin> set (kept_labels entry)"
proof -
  from assms obtain d2 d4 d5 c6 c7 where
    d2: "d2 = str_replace ''## '' [] (str_strip entry)" and
    d4: "d4 = (if CHR ''#'' \<in> set d2 then str_strip (takeWhile (\<lambda>x. x \<noteq> CHR ''#'') d2) else d2)" and
    d5: "d5 = (if CHR ''@'' \<in> set d4 then tl (dropWhile (\<lambda>x. x \<noteq> CHR ''@'') d4) else d4)" and
    c6: "c6 = str_join ''.'' (filter (\<lambda>segment. segment \<noteq> []) (str_split (CHR ''.'') d5))" and
    c7: "c7 = (if length (str_split (CHR ''.'') c6) > 2
           then str_join ''.'' (drop (length (str_split (CHR ''.'') c6) - 2) (str_split (CHR ''.'') c6))
           else c6)" and
    out: "normalize_domain entry = str_lower c7"
    by (rule normalize_domain_stages)
  define labels where "labels = filter (\<lambda>l. l \<noteq> []) (str_split (CHR ''.'') d5)"
  have kt: "kept_text entry = d5"
    by (simp only: kept_text_def Let_def d5 d4 d2)
  have kl: "kept_labels entry = drop (length labels - 2) labels"
    by (simp only: kept_labels_def Let_def kt labels_def)
  have c6': "c6 = str_join ''.'' labels" by (simp only: c6 labels_def)
  have ne: "labels \<noteq> []"
  proof
    assume "labels = []"
    then have "c6 = []" by (simp add: c6')
    then have "c7 = []" by (simp add: c7)
    with out assms show False by (simp add: str_lower_def)
  qed
  have nodot: "\<forall>l \<in> set labels. CHR ''.'' \<notin> set l"
    using split_no_sep [of _ "CHR ''.''" d5] by (auto simp: labels_def)
  have parts: "str_split (CHR ''.'') (str_join ''.'' labels) = labels"
    by (rule split_join [OF ne nodot])
  have c7': "c7 = str_join ''.'' (drop (length labels - 2) labels)"
    by (cases "length labels > 2") (simp_all add: c7 c6' parts)
  show "normalize_domain entry = str_lower (str_join ''.'' (kept_labels entry))"
    by (simp only: out c7' kl)
  show "kept_labels entry \<noteq> []"
  proof -
    from ne have "0 < length labels" by simp
    then have "length labels - 2 < length labels" by arith
    then show ?thesis by (simp add: kl)
  qed
  show "[] \<notin> set (kept_labels entry)"
  proof
    assume "[] \<in> set (kept_labels entry)"
    then have "[] \<in> set labels" unfolding kl by (rule in_set_dropD)
    then show False by (simp add: labels_def)
  qed
qed

lemma kept_text_no_hash: "CHR ''#'' \<notin> set (kept_text entry)"
proof -
  define line where "line = str_replace ''## '' [] (str_strip entry)"
  define body where "body = (if CHR ''#'' \<in> set line
                  then str_strip (takeWhile (\<lambda>c. c \<noteq> CHR ''#'') line) else line)"
  have kt: "kept_text entry =
      (if CHR ''@'' \<in> set body then tl (dropWhile (\<lambda>c. c \<noteq> CHR ''@'') body) else body)"
    by (simp only: kept_text_def Let_def body_def line_def)
  have t: "CHR ''#'' \<notin> set body"
  proof (cases "CHR ''#'' \<in> set line")
    case True
    then have "set body \<subseteq> set (takeWhile (\<lambda>c. c \<noteq> CHR ''#'') line)"
      using set_strip by (simp add: body_def)
    then show ?thesis by (auto dest: set_takeWhileD)
  next
    case False
    then show ?thesis by (simp add: body_def)
  qed
  have "set (kept_text entry) \<subseteq> set body"
    using set_tl_subset [of "dropWhile (\<lambda>c. c \<noteq> CHR ''@'') body"]
    by (auto simp: kt dest: set_dropWhileD)
  with t show ?thesis by blast
qed

lemma kept_labels_chars: "l \<in> set (kept_labels entry) \<Longrightarrow> set l \<subseteq> set (kept_text entry)"
proof -
  assume "l \<in> set (kept_labels entry)"
  then have "l \<in> set (filter (\<lambda>l. l \<noteq> []) (str_split (CHR ''.'') (kept_text entry)))"
    unfolding kept_labels_def Let_def by (rule in_set_dropD)
  then have "l \<in> set (str_split (CHR ''.'') (kept_text entry))" by simp
  then show ?thesis by (rule set_split)
qed

text \<open>
  Claim C2, as amended. Whenever \<open>normalize_domain\<close> returns a non-empty string, that
  string is lowercase (lowercasing it again changes nothing) and contains no \<open>#\<close>. It is
  made of the kept labels of the line, of which there is at least one and none is empty: it
  does not begin with whitespace when the first kept label does not, it does not end with
  whitespace when the last kept label does not, and it contains no \<open>@\<close> when no kept label
  contains one; and it contains no whitespace at all when the kept text contains none. So a
  line such as \<open>"user@Example.COM # note"\<close> gives a domain free of blanks and of
  \<open>@\<close>. Nothing is promised for a kept label that itself begins or ends with
  whitespace or holds an \<open>@\<close>: only the text behind the first \<open>@\<close> is kept, and the labels
  are not trimmed again.
\<close>

theorem normalize_domain_invariant:
  assumes "normalize_domain entry \<noteq> []"
  shows "str_lower (normalize_domain entry) = normalize_domain entry \<and>
         CHR ''#'' \<notin> set (normalize_domain entry) \<and>
         kept_labels entry \<noteq> [] \<and> [] \<notin> set (kept_labels entry) \<and>
         (\<not> isspace (hd (hd (kept_labels entry))) \<longrightarrow> \<not> isspace (hd (normalize_domain entry))) \<and>
         (\<not> isspace (last (last (kept_labels entry))) \<longrightarrow> \<not> isspace (last (normalize_domain entry))) \<and>
         ((\<forall>l \<in> set (kept_labels entry). CHR ''@'' \<notin> set l) \<longrightarrow>
            CHR ''@'' \<notin> set (normalize_domain entry)) \<and>
         ((\<forall>c \<in> set (kept_text entry). \<not> isspace c) \<longrightarrow>
            (\<forall>c \<in> set (normalize_domain entry). \<not> isspace c))"
proof -
  let ?ls = "kept_labels entry"
  let ?j = "str_join ''.'' ?ls"
  note out = normalize_domain_labels(1) [OF assms]
  note ne = normalize_domain_labels(2) [OF assms]
  note nonempty = normalize_domain_labels(3) [OF assms]
  obtain x xs where ls: "?ls = x # xs" using ne by (cases ?ls) auto
  have x: "x \<noteq> []" using nonempty ls by auto
  have lastne: "last ?ls \<noteq> []" using nonempty ne last_in_set [OF ne] by metis
  have jne: "?j \<noteq> []" and jlast: "last ?j = last (last ?ls)"
    using join_ends [OF ne lastne, of "''.''"] by simp_all
  have jhd: "hd ?j = hd (hd ?ls)"
    using join_starts [OF x, of "''.''" xs] by (simp add: ls)
  have lower: "str_lower (normalize_domain entry) = normalize_domain entry"
    by (simp add: out str_lower_def lower_char_idem)
  have chars: "set ?j \<subseteq> insert (CHR ''.'') (\<Union> (set ` set ?ls))"
    using set_join [of "''.''" ?ls] by auto
  have hash: "CHR ''#'' \<notin> set (normalize_domain entry)"
  proof
    assume "CHR ''#'' \<in> set (normalize_domain entry)"
    then obtain c where c: "c \<in> set ?j" "lower_char c = CHR ''#''"
      by (auto simp: out set_lower)
    then have "c = CHR ''#''" by (simp add: lower_char_eq_hash)
    with c(1) chars obtain l where "l \<in> set ?ls" "CHR ''#'' \<in> set l" by auto
    then have "CHR ''#'' \<in> set (kept_text entry)" using kept_labels_chars by blast
    then show False using kept_text_no_hash by blast
  qed
  have lead: "\<not> isspace (hd (normalize_domain entry))" if "\<not> isspace (hd (hd ?ls))"
  proof -
    have "hd (normalize_domain entry) = lower_char (hd (hd ?ls))"
      using jne by (simp add: out str_lower_def hd_map jhd)
    with that show ?thesis using isspace_lower by auto
  qed
  have trail: "\<not> isspace (last (normalize_domain entry))" if "\<not> isspace (last (last ?ls))"
  proof -
    have "last (normalize_domain entry) = lower_char (last (last ?ls))"
      using jne by (simp add: out str_lower_def last_map jlast)
    with that show ?thesis using isspace_lower by auto
  qed
  have at: "CHR ''@'' \<notin> set (normalize_domain entry)"
    if none: "\<forall>l \<in> set ?ls. CHR ''@'' \<notin> set l"
  proof
    assume "CHR ''@'' \<in> set (normalize_domain entry)"
    then obtain c where c: "c \<in> set ?j" "lower_char c = CHR ''@''"
      by (auto simp: out set_lower)
    then have "c = CHR ''@''" by (simp add: lower_char_eq_at)
    with c(1) chars none show False by auto
  qed
  have ws: "\<forall>c \<in> set (normalize_domain entry). \<not> isspace c"
    if clean: "\<forall>c \<in> set (kept_text entry). \<not> isspace c"
  proof
    fix y assume "y \<in> set (normalize_domain entry)"
    then obtain c where c: "c \<in> set ?j" "y = lower_char c"
      by (auto simp: out set_lower)
    have "\<not> isspace c"
    proof (cases "c = CHR ''.''")
      case True
      then show ?thesis by (simp add: isspace_def)
    next
      case False
      with c(1) chars obtain l where "l \<in> set ?ls" "c \<in> set l" by auto
      then have "c \<in> set (kept_text entry)" using kept_labels_chars by blast
      with clean show ?thesis by blast
    qed
    then show "\<not> isspace y" using isspace_lower c(2) by blast
  qed
  from lower hash ne nonempty lead trail at ws show ?thesis by blast
qed

theorem normalize_domain_invariant_witness:
  "normalize_domain ''user@Example.COM # note'' = ''example.com'' \<and>
   str_lower ''example.com'' = ''example.com'' \<and>
   CHR ''#'' \<notin> set ''example.com'' \<and>
   \<not> isspace (hd ''example.com'') \<and>
   \<not> isspace (last ''example.com'') \<and>
   CHR ''@'' \<notin> set ''example.com'' \<and>
   filter isspace ''example.com'' = []"
proof -
  let ?e = "''user@Example.COM # note''"
  have e: "normalize_domain ?e = ''example.com''"
    by code_simp
  have ne: "normalize_domain ?e \<noteq> []"
    by (simp only: e) simp
  have h1: "\<not> isspace (hd (hd (kept_labels ?e)))"
    by code_simp
  have h2: "\<not> isspace (last (last (kept_labels ?e)))"
    by code_simp
  have h3: "\<forall>l \<in> set (kept_labels ?e). CHR ''@'' \<notin> set l"
    by code_simp
  have h4: "\<forall>c \<in> set (kept_text ?e). \<not> isspace c"
    by code_simp
  note I = normalize_domain_invariant [OF ne]
  note I2 = I [THEN conjunct2]
  note I5 = I2 [THEN conjunct2, THEN conjunct2, THEN conjunct2]
  have l: "str_lower (normalize_domain ?e) = normalize_domain ?e"
    by (rule I [THEN conjunct1])
  have h: "CHR ''#'' \<notin> set (normalize_domain ?e)"
    by (rule I2 [THEN conjunct1])
  have b: "\<not> isspace (hd (normalize_domain ?e))"
    by (rule I5 [THEN conjunct1, THEN mp, OF h1])
  have t: "\<not> isspace (last (normalize_domain ?e))"
    by (rule I5 [THEN conjunct2, THEN conjunct1, THEN mp, OF h2])
  have a: "CHR ''@'' \<notin> set (normalize_domain ?e)"
    by (rule I5 [THEN conjunct2, THEN conjunct2, THEN conjunct1, THEN mp, OF h3])
  have "\<forall>c \<in> set (normalize_domain ?e). \<not> isspace c"
    by (rule I5 [THEN conjunct2, THEN conjunct2, THEN conjunct2, THEN mp, OF h4])
  then have w: "filter isspace (normalize_domain ?e) = []"
    by (simp only: filter_empty_conv)
  show ?thesis
    by (intro conjI)
       (rule e l [unfolded e] h [unfolded e] b [unfolded e] t [unfolded e] a [unfolded e]
             w [unfolded e])+
qed

text \<open>
  The claim as first stated fails: the line \<open>"u@ b@C ."\<close> is normalised to \<open>" b@c "\<close>,
  which keeps an \<open>@\<close> and has a blank at either end.
\<close>

theorem normalize_domain_invariant_counterexample:
  "normalize_domain ''u@ b@C .'' = '' b@c '' \<and>
   CHR ''@'' \<in> set '' b@c '' \<and> isspace (hd '' b@c '') \<and> isspace (last '' b@c '')"
  by code_simp

subsection \<open>The allowlist filter\<close>

lemma fcard_split: "fcard (D |-| A) + fcard (D |\<inter>| A) = fcard D"
proof -
  have "fcard ((D |-| A) |\<union>| (D |\<inter>| A)) = fcard (D |-| A) + fcard (D |\<inter>| A)"
    by (rule fcard_funion_disjoint) auto
  moreover have "(D |-| A) |\<union>| (D |\<inter>| A) = D" by auto
  ultimately show ?thesis by simp
qed

lemma fcard_removed: "int (fcard D) - int (fcard (D |-| A)) = int (fcard (D |\<inter>| A))"
  using fcard_split [of D A] by linarith

lemma apply_allowlist_eq:
  "apply_allowlist D A = (D |-| A, int (fcard (D |\<inter>| A)))"
  by (simp add: apply_allowlist_def Let_def fcard_removed)

text \<open>
  Claim C5. If the candidate set or the allowlist is empty, \<open>apply_allowlist\<close> returns the
  candidates unchanged with a removal count of 0; otherwise it returns the candidates minus
  the allowlist, and the count is the number of candidates minus the number kept. So
  filtering by the empty allowlist, or filtering the empty set, is the identity with count 0.
\<close>

theorem apply_allowlist_contract:
  "(domains = {||} \<or> allowlist = {||} \<longrightarrow> apply_allowlist domains allowlist = (domains, 0)) \<and>
   (domains \<noteq> {||} \<and> allowlist \<noteq> {||} \<longrightarrow>
      apply_allowlist domains allowlist =
        (domains |-| allowlist, int (fcard domains) - int (fcard (domains |-| allowlist)))) \<and>
   apply_allowlist domains {||} = (domains, 0) \<and>
   apply_allowlist {||} allowlist = ({||}, 0)"
  by (simp add: apply_allowlist_def Let_def)

theorem apply_allowlist_contract_witness:
  "apply_allowlist {|''a.com'', ''b.com''|} {|''b.com'', ''c.com''|} = ({|''a.com''|}, 1) \<and>
   apply_allowlist {|''a.com'', ''b.com''|} {||} = ({|''a.com'', ''b.com''|}, 0) \<and>
   apply_allowlist {||} {|''b.com'', ''c.com''|} = ({||}, 0)"
proof -
  have ne: "{|''a.com'', ''b.com''|} \<noteq> {||} \<and> {|''b.com'', ''c.com''|} \<noteq> {||}"
    by simp
  have d: "{|''a.com'', ''b.com''|} |-| {|''b.com'', ''c.com''|} = {|''a.com''|}"
    by code_simp
  have c: "int (fcard {|''a.com'', ''b.com''|}) - int (fcard {|''a.com''|}) = 1"
    by code_simp
  show ?thesis
    using apply_allowlist_contract [of "{|''a.com'', ''b.com''|}" "{|''b.com'', ''c.com''|}"]
      apply_allowlist_contract [of "{|''a.com'', ''b.com''|}" "{||}"]
      apply_allowlist_contract [of "{||}" "{|''b.com'', ''c.com''|}"] ne d c
    by simp
qed

text \<open>
  Claim C10. The implementation with its fast path for an empty input is the same function
  as the uniform definition: the candidates minus the allowlist, together with the number of
  candidates that are in the allowlist.
\<close>

theorem apply_allowlist_uniform:
  "apply_allowlist domains allowlist = allowlist_uniform domains allowlist"
  by (simp add: apply_allowlist_eq allowlist_uniform_def)

theorem apply_allowlist_uniform_witness:
  "apply_allowlist {|''a.com'', ''b.com''|} {|''b.com'', ''c.com''|} = ({|''a.com''|}, 1) \<and>
   allowlist_uniform {|''a.com''|} {||} = ({|''a.com''|}, 0)"
proof -
  have "allowlist_uniform {|''a.com'', ''b.com''|} {|''b.com'', ''c.com''|} = ({|''a.com''|}, 1)"
    by code_simp
  moreover have "apply_allowlist {|''a.com''|} {||} = ({|''a.com''|}, 0)"
    by code_simp
  ultimately show ?thesis
    using apply_allowlist_uniform [of "{|''a.com'', ''b.com''|}" "{|''b.com'', ''c.com''|}"]
      apply_allowlist_uniform [of "{|''a.com''|}" "{||}"]
    by simp
qed

subsection \<open>Fetching one source and many\<close>

lemma fset_fetch_loop:
  "fset (fetch_loop decode raw_lines acc)
     = fset acc \<union> ((\<lambda>raw. normalize_domain (decode raw)) ` set raw_lines - {[]})"
  by (induction raw_lines arbitrary: acc) (auto simp: Let_def)

lemma fetch_domains_from_url_cases:
  "fetch_domains_from_url decode net url =
     (case res_end (net url) of
        None \<Rightarrow> Inr (fetch_loop decode (res_lines (net url)) {||}, [])
      | Some (Exn cls exc) \<Rightarrow>
          if handled cls
          then Inr (fetch_loop decode (res_lines (net url)) {||},
                    [(WARN, ''Unable to load '' @ url @ '': '' @ exc)])
          else Inl (Exn cls exc))"
  by (cases "net url") (simp add: fetch_domains_from_url_def Let_def log_def split: option.splits exn.splits)

lemma fetch_domains_from_url_returns:
  assumes "\<not> propagates (net url)"
  shows "\<exists>out. fetch_domains_from_url decode net url
           = Inr (fetch_loop decode (res_lines (net url)) {||}, out)"
  using assms
  by (auto simp: fetch_domains_from_url_cases propagates_def split: option.splits exn.splits)

lemma fetch_multiple_loop_returns:
  assumes "\<forall>u \<in> set urls. \<not> propagates (net u)"
  shows "\<exists>fetched out'. fetch_multiple_loop decode net urls acc out = Inr (fetched, out') \<and>
           fset fetched = fset acc \<union>
             (\<Union>u \<in> set urls. (\<lambda>raw. normalize_domain (decode raw)) ` set (res_lines (net u)) - {[]})"
  using assms
proof (induction urls arbitrary: acc out)
  case Nil
  then show ?case by simp
next
  case (Cons url rest)
  from Cons.prems have "\<not> propagates (net url)" by simp
  then obtain printed where one: "fetch_domains_from_url decode net url
           = Inr (fetch_loop decode (res_lines (net url)) {||}, printed)"
    using fetch_domains_from_url_returns by blast
  from Cons.prems have "\<forall>u \<in> set rest. \<not> propagates (net u)" by simp
  from Cons.IH [OF this, of "acc |\<union>| fetch_loop decode (res_lines (net url)) {||}" "out @ printed"]
  obtain fetched out' where
    "fetch_multiple_loop decode net rest (acc |\<union>| fetch_loop decode (res_lines (net url)) {||}) (out @ printed)
       = Inr (fetched, out')"
    "fset fetched = fset (acc |\<union>| fetch_loop decode (res_lines (net url)) {||}) \<union>
       (\<Union>u \<in> set rest. (\<lambda>raw. normalize_domain (decode raw)) ` set (res_lines (net u)) - {[]})"
    by blast
  then show ?case
    by (auto simp: one fset_fetch_loop)
qed

text \<open>
  Claim C9, as amended. If the stream of a URL ends in an \<open>HTTPError\<close>, \<open>URLError\<close> or
  \<open>OSError\<close>, \<open>fetch_domains_from_url\<close> prints one warning and returns, without passing
  the error on, the domains normalised from the lines received before the failure; that is
  the empty set when the failure comes before any line, as when the open itself fails. On
  success it returns the same set and prints nothing. In both cases the set holds exactly the
  non-empty results of normalising the decoded lines, the decoder being total. When no source
  ends in any other exception, \<open>fetch_multiple_sources\<close> returns the union over all sources:
  a failing source does not abort the run.
\<close>

theorem fetch_failure_isolated:
  "(net url = Response raw_lines (Some (Exn cls exc)) \<and> handled cls \<longrightarrow>
      fetch_domains_from_url decode net url
        = Inr (fetch_loop decode raw_lines {||}, [(WARN, ''Unable to load '' @ url @ '': '' @ exc)])) \<and>
   (net url = Response [] (Some (Exn cls exc)) \<and> handled cls \<longrightarrow>
      fetch_domains_from_url decode net url
        = Inr ({||}, [(WARN, ''Unable to load '' @ url @ '': '' @ exc)])) \<and>
   (net url = Response raw_lines None \<longrightarrow>
      fetch_domains_from_url decode net url = Inr (fetch_loop decode raw_lines {||}, [])) \<and>
   fset (fetch_loop decode raw_lines {||})
     = (\<lambda>raw. normalize_domain (decode raw)) ` set raw_lines - {[]} \<and>
   ((\<forall>u \<in> set urls. \<not> propagates (net u)) \<longrightarrow>
      (\<exists>fetched out. fetch_multiple_sources decode net urls = Inr (fetched, out) \<and>
         fset fetched =
           (\<Union>u \<in> set urls. (\<lambda>raw. normalize_domain (decode raw)) ` set (res_lines (net u)) - {[]})))"
proof (intro conjI impI)
  assume "net url = Response raw_lines (Some (Exn cls exc)) \<and> handled cls"
  then show "fetch_domains_from_url decode net url
        = Inr (fetch_loop decode raw_lines {||}, [(WARN, ''Unable to load '' @ url @ '': '' @ exc)])"
    by (simp add: fetch_domains_from_url_cases)
next
  assume "net url = Response [] (Some (Exn cls exc)) \<and> handled cls"
  then show "fetch_domains_from_url decode net url
        = Inr ({||}, [(WARN, ''Unable to load '' @ url @ '': '' @ exc)])"
    by (simp add: fetch_domains_from_url_cases)
next
  assume "net url = Response raw_lines None"
  then show "fetch_domains_from_url decode net url = Inr (fetch_loop decode raw_lines {||}, [])"
    by (simp add: fetch_domains_from_url_cases)
next
  show "fset (fetch_loop decode raw_lines {||})
     = (\<lambda>raw. normalize_domain (decode raw)) ` set raw_lines - {[]}"
    by (simp add: fset_fetch_loop)
next
  assume "\<forall>u \<in> set urls. \<not> propagates (net u)"
  from fetch_multiple_loop_returns [OF this, of decode "{||}" "[]"]
  show "\<exists>fetched out. fetch_multiple_sources decode net urls = Inr (fetched, out) \<and>
         fset fetched =
           (\<Union>u \<in> set urls. (\<lambda>raw. normalize_domain (decode raw)) ` set (res_lines (net u)) - {[]})"
    by (simp add: fetch_multiple_sources_def)
qed

theorem fetch_failure_isolated_witness:
  "fetch_domains_from_url id
      (remote unreachable [(''https://lists.example/domains.txt'',
          Response [''a.com\<newline>'', ''# note\<newline>''] (Some (Exn OSError ''timed out'')))])
      ''https://lists.example/domains.txt''
    = Inr ({|''a.com''|}, [(WARN, ''Unable to load https://lists.example/domains.txt: timed out'')]) \<and>
   (\<exists>fetched out. fetch_multiple_sources id
      (remote unreachable [(''https://lists.example/domains.txt'',
          Response [''a.com\<newline>'', ''# note\<newline>''] (Some (Exn OSError ''timed out'')))])
      [''https://lists.example/domains.txt'', ''https://lists.example/more.txt'']
    = Inr (fetched, out))"
proof -
  let ?u = "''https://lists.example/domains.txt''"
  let ?ls = "[''a.com\<newline>'', ''# note\<newline>'']"
  let ?net = "remote unreachable [(?u, Response ?ls (Some (Exn OSError ''timed out'')))]"
  let ?urls = "[?u, ''https://lists.example/more.txt'']"
  note T = fetch_failure_isolated [of ?net ?u ?ls OSError "''timed out''" id ?urls]
  have h1: "?net ?u = Response ?ls (Some (Exn OSError ''timed out'')) \<and> handled OSError"
    by code_simp
  have h2: "\<forall>u \<in> set ?urls. \<not> propagates (?net u)"
    by code_simp
  have e: "fetch_loop id ?ls {||} = {|''a.com''|}"
    by code_simp
  have m: "''Unable to load '' @ ?u @ '': '' @ ''timed out''
             = ''Unable to load https://lists.example/domains.txt: timed out''"
    by simp
  have "fetch_domains_from_url id ?net ?u
      = Inr (fetch_loop id ?ls {||}, [(WARN, ''Unable to load '' @ ?u @ '': '' @ ''timed out'')])"
    by (rule T [THEN conjunct1, THEN mp, OF h1])
  then have r1: "fetch_domains_from_url id ?net ?u
      = Inr ({|''a.com''|}, [(WARN, ''Unable to load https://lists.example/domains.txt: timed out'')])"
    by (simp only: e m)
  obtain fetched out where "fetch_multiple_sources id ?net ?urls = Inr (fetched, out)"
    using T [THEN conjunct2, THEN conjunct2, THEN conjunct2, THEN conjunct2, THEN mp, OF h2]
    by (elim exE conjE)
  then have r2: "\<exists>fetched out. fetch_multiple_sources id ?net ?urls = Inr (fetched, out)"
    by (intro exI)
  show ?thesis
    by (rule conjI [OF r1 r2])
qed

text \<open>
  The claim as first stated fails: a stream that yields the line \<open>a.com\<close> and then times out
  makes \<open>fetch_domains_from_url\<close> return the set holding \<open>a.com\<close>, not the empty set.
\<close>

theorem fetch_failure_isolated_counterexample:
  "remote unreachable [(''https://lists.example/domains.txt'',
          Response [''a.com\<newline>''] (Some (Exn OSError ''timed out'')))]
      ''https://lists.example/domains.txt''
    = Response [''a.com\<newline>''] (Some (Exn OSError ''timed out'')) \<and>
   handled OSError \<and>
   fetch_domains_from_url id
      (remote unreachable [(''https://lists.example/domains.txt'',
          Response [''a.com\<newline>''] (Some (Exn OSError ''timed out'')))])
      ''https://lists.example/domains.txt''
    = Inr ({|''a.com''|}, [(WARN, ''Unable to load https://lists.example/domains.txt: timed out'')]) \<and>
   {|''a.com''|} \<noteq> ({||} :: string fset)"
  by code_simp

subsection \<open>One refresh cycle\<close>

lemma allowlist_url_set: "ALLOWLIST_URL \<noteq> []"
  by (simp add: ALLOWLIST_URL_def)

lemma process_sources_Inr:
  assumes a: "fetch_domains_from_url decode net ALLOWLIST_URL = Inr (A, out1)"
      and f: "fetch_multiple_sources decode net urls = Inr (F, out4)"
      and p: "apply_allowlist (load_existing_domains (output_file w)) A = (S, r)"
      and q: "apply_allowlist F A = (FF, k)"
  shows "\<exists>w'. process_sources decode net urls w =
           Inr (if FF = {||} \<and> r = 0 then 0 else int (fcard (FF |-| S)), w') \<and>
         output_file w' =
           (if FF = {||} \<and> r = 0 then output_file w
            else if S |\<union>| FF \<noteq> load_existing_domains (output_file w)
            then Some (write_domains (S |\<union>| FF))
            else output_file w)"
proof (cases "FF = {||} \<and> r = 0")
  case True
  then show ?thesis
    unfolding process_sources_def Let_def
    by (simp add: allowlist_url_set a f p q del: append_assoc)
next
  case False
  show ?thesis
  proof (cases "S |\<union>| FF \<noteq> load_existing_domains (output_file w)")
    case True
    with False show ?thesis
      unfolding process_sources_def Let_def
      by (auto simp add: allowlist_url_set a f p q simp del: append_assoc)
  next
    case True2: False
    with False show ?thesis
      unfolding process_sources_def Let_def
      by (auto simp add: allowlist_url_set a f p q simp del: append_assoc)
  qed
qed

text \<open>
  Claim C4. Outage guard: in a cycle whose filtered fetched set is empty and in which no
  allowlisted domain was removed from the persisted set, \<open>process_sources\<close> returns 0 and
  the output file after the cycle is the file before it, character for character.
\<close>

theorem outage_guard:
  assumes "fetch_domains_from_url decode net ALLOWLIST_URL = Inr (allowlist_domains, out1)"
      and "fetch_multiple_sources decode net urls = Inr (fetched_domains, out4)"
      and "fst (apply_allowlist fetched_domains allowlist_domains) = {||}"
      and "snd (apply_allowlist (load_existing_domains (output_file w)) allowlist_domains) = 0"
  shows "\<exists>w'. process_sources decode net urls w = Inr (0, w') \<and> output_file w' = output_file w"
proof -
  obtain S r where p: "apply_allowlist (load_existing_domains (output_file w)) allowlist_domains = (S, r)"
    by (cases "apply_allowlist (load_existing_domains (output_file w)) allowlist_domains")
  obtain FF k where q: "apply_allowlist fetched_domains allowlist_domains = (FF, k)"
    by (cases "apply_allowlist fetched_domains allowlist_domains")
  from assms(3,4) p q have g: "FF = {||} \<and> r = 0" by simp
  from process_sources_Inr [OF assms(1,2) p q] g show ?thesis by simp
qed

theorem outage_guard_witness:
  "\<exists>w'. process_sources id (remote unreachable []) SOURCE_URLS
            \<lparr>output_file = Some ''a.com\<newline>b.com\<newline>'', console = []\<rparr> = Inr (0, w') \<and>
        output_file w' = Some ''a.com\<newline>b.com\<newline>''"
proof -
  have a: "fetch_domains_from_url id (remote unreachable []) ALLOWLIST_URL
             = Inr ({||}, [warn_unreachable ALLOWLIST_URL])"
    by code_simp
  have f: "fetch_multiple_sources id (remote unreachable []) SOURCE_URLS
             = Inr ({||}, map warn_unreachable SOURCE_URLS)"
    by code_simp
  have g: "fst (apply_allowlist {||} {||}) = {||}"
    by code_simp
  have h: "snd (apply_allowlist (load_existing_domains
             (output_file \<lparr>output_file = Some ''a.com\<newline>b.com\<newline>'', console = []\<rparr>)) {||}) = 0"
    by code_simp
  show ?thesis
    using outage_guard [OF a f g h] by simp
qed

text \<open>
  Claim C6. In a cycle that passes the outage guard, the set to persist is the sanitized
  persisted set united with the filtered fetched set; it is written to the file exactly when it
  differs from the persisted set that was loaded, and \<open>process_sources\<close> returns the number
  of filtered fetched domains that are not in the sanitized persisted set. With
  \<open>a.com, b.com\<close> on file, no allowlist, and \<open>b.com, c.com\<close> fetched, the file is rewritten
  with \<open>a.com, b.com, c.com\<close> and the cycle returns 1.
\<close>

theorem reconcile:
  assumes "fetch_domains_from_url decode net ALLOWLIST_URL = Inr (allowlist_domains, out1)"
      and "fetch_multiple_sources decode net urls = Inr (fetched_domains, out4)"
      and "apply_allowlist (load_existing_domains (output_file w)) allowlist_domains
             = (sanitized_existing, removed_existing)"
      and "apply_allowlist fetched_domains allowlist_domains = (filtered_fetched, skipped)"
      and "\<not> (filtered_fetched = {||} \<and> removed_existing = 0)"
  shows "(\<exists>w'. process_sources decode net urls w
                = Inr (int (fcard (filtered_fetched |-| sanitized_existing)), w') \<and>
              output_file w' =
                (if sanitized_existing |\<union>| filtered_fetched \<noteq> load_existing_domains (output_file w)
                 then Some (write_domains (sanitized_existing |\<union>| filtered_fetched))
                 else output_file w)) \<and>
         process_sources id
             (remote unreachable [(''https://lists.example/domains.txt'',
                                   Response [''b.com\<newline>'', ''c.com\<newline>''] None)])
             [''https://lists.example/domains.txt'']
             \<lparr>output_file = Some ''a.com\<newline>b.com\<newline>'', console = []\<rparr>
           = Inr (1, \<lparr>output_file = Some ''a.com\<newline>b.com\<newline>c.com\<newline>'',
                      console = [warn_unreachable ALLOWLIST_URL, warn_no_allowlist,
                                 (INFO, ''Added 1 new disposable domains.'')]\<rparr>)"
proof
  show "\<exists>w'. process_sources decode net urls w
                = Inr (int (fcard (filtered_fetched |-| sanitized_existing)), w') \<and>
              output_file w' =
                (if sanitized_existing |\<union>| filtered_fetched \<noteq> load_existing_domains (output_file w)
                 then Some (write_domains (sanitized_existing |\<union>| filtered_fetched))
                 else output_file w)"
    using process_sources_Inr [OF assms(1-4)] assms(5) by simp
  show "process_sources id
             (remote unreachable [(''https://lists.example/domains.txt'',
                                   Response [''b.com\<newline>'', ''c.com\<newline>''] None)])
             [''https://lists.example/domains.txt'']
             \<lparr>output_file = Some ''a.com\<newline>b.com\<newline>'', console = []\<rparr>
           = Inr (1, \<lparr>output_file = Some ''a.com\<newline>b.com\<newline>c.com\<newline>'',
                      console = [warn_unreachable ALLOWLIST_URL, warn_no_allowlist,
                                 (INFO, ''Added 1 new disposable domains.'')]\<rparr>)"
    by code_simp
qed

theorem reconcile_witness:
  "\<exists>w'. process_sources id
            (remote (Response [''b.com\<newline>''] None)
                    [(''https://lists.example/domains.txt'',
                      Response [''B.com\<newline>'', ''mail.c.com\<newline>'', ''d.com\<newline>''] None)])
            [''https://lists.example/domains.txt'']
            \<lparr>output_file = Some ''a.com\<newline>b.com\<newline>'', console = []\<rparr> = Inr (2, w') \<and>
        output_file w' = Some ''a.com\<newline>c.com\<newline>d.com\<newline>''"
proof -
  let ?net = "remote (Response [''b.com\<newline>''] None)
                    [(''https://lists.example/domains.txt'',
                      Response [''B.com\<newline>'', ''mail.c.com\<newline>'', ''d.com\<newline>''] None)]"
  let ?w = "\<lparr>output_file = Some ''a.com\<newline>b.com\<newline>'', console = []\<rparr>"
  have a: "fetch_domains_from_url id ?net ALLOWLIST_URL = Inr ({|''b.com''|}, [])"
    by code_simp
  have f: "fetch_multiple_sources id ?net [''https://lists.example/domains.txt'']
             = Inr ({|''b.com'', ''c.com'', ''d.com''|}, [])"
    by code_simp
  have p: "apply_allowlist (load_existing_domains (output_file ?w)) {|''b.com''|}
             = ({|''a.com''|}, 1)"
    by code_simp
  have q: "apply_allowlist {|''b.com'', ''c.com'', ''d.com''|} {|''b.com''|}
             = ({|''c.com'', ''d.com''|}, 1)"
    by code_simp
  have g: "\<not> ({|''c.com'', ''d.com''|} = {||} \<and> (1::int) = 0)"
    by simp
  have n: "int (fcard ({|''c.com'', ''d.com''|} |-| {|''a.com''|})) = 2"
    by code_simp
  have d: "({|''a.com''|} |\<union>| {|''c.com'', ''d.com''|} \<noteq> load_existing_domains (output_file ?w)) = True"
    by code_simp
  have t: "write_domains ({|''a.com''|} |\<union>| {|''c.com'', ''d.com''|})
             = ''a.com\<newline>c.com\<newline>d.com\<newline>''"
    by code_simp
  show ?thesis
    using reconcile [OF a f p q g] by (simp only: n d t if_True)
qed

text \<open>
  Claim C7. With \<open>a.com\<close> on file, \<open>a.com\<close> in the allowlist and every source unreachable,
  the sanitized persisted set is empty with one removal and the filtered fetched set is empty;
  the cycle does not stop at the outage guard, writes the empty set (an empty file) and
  returns 0.
\<close>

theorem allowlist_removal_rewrites:
  "load_existing_domains (Some ''a.com\<newline>'') = {|''a.com''|} \<and>
   fetch_domains_from_url id (remote (Response [''a.com\<newline>''] None) []) ALLOWLIST_URL
     = Inr ({|''a.com''|}, []) \<and>
   fetch_multiple_sources id (remote (Response [''a.com\<newline>''] None) []) SOURCE_URLS
     = Inr ({||}, map warn_unreachable SOURCE_URLS) \<and>
   apply_allowlist {|''a.com''|} {|''a.com''|} = ({||}, 1) \<and>
   apply_allowlist {||} {|''a.com''|} = ({||}, 0) \<and>
   process_sources id (remote (Response [''a.com\<newline>''] None) []) SOURCE_URLS
       \<lparr>output_file = Some ''a.com\<newline>'', console = []\<rparr>
     = Inr (0, \<lparr>output_file = Some [],
                console = [(INFO, ''Removed 1 allowlisted domains from existing output.'')]
                  @ map warn_unreachable SOURCE_URLS
                  @ [(INFO, ''Output refreshed after removing allowlisted domains.'')]\<rparr>)"
  by code_simp

subsection \<open>Reading back what was written, and running the cycle twice\<close>

text \<open>
  A set of domains survives being written and loaded again when each of its members is
  non-empty, is left unchanged by \<open>normalize_domain\<close> and holds no line break.
\<close>

lemma translate_newlines_id: "CHR 0x0D \<notin> set s \<Longrightarrow> translate_newlines s = s"
  by (induction s) auto

lemma keepends_line:
  "CHR 0x0A \<notin> set d \<Longrightarrow> keepends (d @ CHR 0x0A # rest) = (d @ [CHR 0x0A]) # keepends rest"
  by (induction d) auto

lemma keepends_written:
  "\<forall>d \<in> set ds. CHR 0x0A \<notin> set d \<Longrightarrow>
   keepends (concat (map (\<lambda>d. d @ [CHR 0x0A]) ds)) = map (\<lambda>d. d @ [CHR 0x0A]) ds"
  by (induction ds) (simp_all add: keepends_line)

lemma strip_newline: "str_strip (d @ [CHR 0x0A]) = str_strip d"
proof (cases "\<forall>c \<in> set d. isspace c")
  case True
  then have a: "dropWhile isspace d = []" by simp
  have sp: "isspace (CHR 0x0A)" by (simp add: isspace_def)
  from True sp have "\<forall>c \<in> set (d @ [CHR 0x0A]). isspace c" by simp
  then have b: "dropWhile isspace (d @ [CHR 0x0A]) = []"
    by (simp only: dropWhile_eq_Nil_conv)
  show ?thesis by (simp only: str_strip_def a b)
next
  case False
  then have "dropWhile isspace (d @ [CHR 0x0A]) = dropWhile isspace d @ [CHR 0x0A]"
    by (auto simp: dropWhile_append1)
  moreover have "isspace (CHR 0x0A)" by (simp add: isspace_def)
  ultimately show ?thesis by (simp add: str_strip_def)
qed

lemma normalize_domain_strip:
  "str_strip a = str_strip b \<Longrightarrow> normalize_domain a = normalize_domain b"
  by (simp only: normalize_domain_def)

lemma normalize_domain_newline: "normalize_domain (d @ [CHR 0x0A]) = normalize_domain d"
  by (rule normalize_domain_strip) (rule strip_newline)

lemma fset_load_loop:
  "fset (load_loop ls acc) = fset acc \<union> (normalize_domain ` set ls - {[]})"
  by (induction ls arbitrary: acc) (auto simp: Let_def)

lemma load_write_roundtrip:
  assumes "\<forall>d \<in> fset S. d \<noteq> [] \<and> normalize_domain d = d \<and>
             CHR 0x0A \<notin> set d \<and> CHR 0x0D \<notin> set d"
  shows "load_existing_domains (Some (write_domains S)) = S"
proof -
  let ?ds = "sorted_list_of_fset S"
  have ds: "set ?ds = fset S" by simp
  have nocr: "CHR 0x0D \<notin> set (write_domains S)"
    using assms by (auto simp: write_domains_def)
  have nolf: "\<forall>d \<in> set ?ds. CHR 0x0A \<notin> set d"
    using assms by simp
  have "file_lines (write_domains S) = map (\<lambda>d. d @ [CHR 0x0A]) ?ds"
    unfolding file_lines_def translate_newlines_id [OF nocr]
    unfolding write_domains_def by (rule keepends_written [OF nolf])
  then have "fset (load_existing_domains (Some (write_domains S)))
      = normalize_domain ` (\<lambda>d. d @ [CHR 0x0A]) ` fset S - {[]}"
    by (simp add: load_existing_domains_def fset_load_loop)
  also have "\<dots> = normalize_domain ` fset S - {[]}"
    by (simp add: image_image normalize_domain_newline)
  also have "\<dots> = fset S"
    using assms by force
  finally show ?thesis by (simp add: fset_inject)
qed

text \<open>
  Claim C3, as amended. Run \<open>process_sources\<close> twice against the same answers of the
  allowlist and the sources, the second run starting from the file the first one left. If the
  text the first run writes, when it writes, reads back as the very set it wrote, then the
  second run returns 0 and leaves the file as the first run left it. The condition is about
  \<open>load_existing_domains\<close>, which normalises every stored line again: a written domain
  that normalisation would change is read back as a different domain.
\<close>

theorem refresh_twice:
  assumes a: "fetch_domains_from_url decode net ALLOWLIST_URL = Inr (allowlist_domains, out1)"
      and f: "fetch_multiple_sources decode net urls = Inr (fetched_domains, out4)"
      and p: "apply_allowlist (load_existing_domains (output_file w)) allowlist_domains
                = (sanitized_existing, removed_existing)"
      and q: "apply_allowlist fetched_domains allowlist_domains = (filtered_fetched, skipped)"
      and rt: "\<not> (filtered_fetched = {||} \<and> removed_existing = 0) \<and>
               sanitized_existing |\<union>| filtered_fetched \<noteq> load_existing_domains (output_file w)
                 \<longrightarrow> load_existing_domains
                       (Some (write_domains (sanitized_existing |\<union>| filtered_fetched)))
                     = sanitized_existing |\<union>| filtered_fetched"
  shows "\<exists>n1 w1 w2. process_sources decode net urls w = Inr (n1, w1) \<and>
            process_sources decode net urls w1 = Inr (0, w2) \<and>
            output_file w2 = output_file w1"
proof -
  let ?P = "load_existing_domains (output_file w)"
  let ?A = allowlist_domains
  let ?S = sanitized_existing
  let ?FF = filtered_fetched
  let ?r = removed_existing
  have S: "?S = ?P |-| ?A" and FF: "?FF = fetched_domains |-| ?A"
    using p q by (simp_all add: apply_allowlist_eq)
  obtain w1 where run1: "process_sources decode net urls w =
           Inr (if ?FF = {||} \<and> ?r = 0 then 0 else int (fcard (?FF |-| ?S)), w1)"
    and file1: "output_file w1 =
           (if ?FF = {||} \<and> ?r = 0 then output_file w
            else if ?S |\<union>| ?FF \<noteq> ?P then Some (write_domains (?S |\<union>| ?FF))
            else output_file w)"
    using process_sources_Inr [OF a f p q] by blast
  show ?thesis
  proof (cases "?FF = {||} \<and> ?r = 0")
    case True
    then have same: "output_file w1 = output_file w" using file1 by simp
    have p1: "apply_allowlist (load_existing_domains (output_file w1)) ?A = (?S, ?r)"
      using p same by simp
    from process_sources_Inr [OF a f p1 q] True
    obtain w2 where "process_sources decode net urls w1 = Inr (0, w2)"
      "output_file w2 = output_file w1" by auto
    with run1 show ?thesis by blast
  next
    case False
    have P1: "load_existing_domains (output_file w1) = ?S |\<union>| ?FF"
    proof (cases "?S |\<union>| ?FF \<noteq> ?P")
      case True
      with False file1 rt show ?thesis by auto
    next
      case same: False
      with False file1 show ?thesis by auto
    qed
    have disj: "(?S |\<union>| ?FF) |\<inter>| ?A = {||}" using S FF by auto
    have p1: "apply_allowlist (load_existing_domains (output_file w1)) ?A = (?S |\<union>| ?FF, 0)"
      using disj P1 by (simp add: apply_allowlist_eq) auto
    have z: "?FF |-| (?S |\<union>| ?FF) = {||}" by auto
    have u: "(?S |\<union>| ?FF) |\<union>| ?FF = ?S |\<union>| ?FF" by auto
    from process_sources_Inr [OF a f p1 q]
    obtain w2 where "process_sources decode net urls w1 = Inr (0, w2)"
      "output_file w2 = output_file w1"
      by (auto simp: z u P1 split: if_splits)
    with run1 show ?thesis by blast
  qed
qed

theorem refresh_twice_witness:
  "\<exists>n1 w1 w2.
      process_sources id
          (remote (Response [''b.com\<newline>''] None)
                  [(''https://lists.example/domains.txt'',
                    Response [''B.com\<newline>'', ''mail.c.com\<newline>'', ''d.com\<newline>''] None)])
          [''https://lists.example/domains.txt'']
          \<lparr>output_file = Some ''a.com\<newline>b.com\<newline>'', console = []\<rparr> = Inr (n1, w1) \<and>
      process_sources id
          (remote (Response [''b.com\<newline>''] None)
                  [(''https://lists.example/domains.txt'',
                    Response [''B.com\<newline>'', ''mail.c.com\<newline>'', ''d.com\<newline>''] None)])
          [''https://lists.example/domains.txt''] w1 = Inr (0, w2) \<and>
      output_file w2 = output_file w1"
proof -
  let ?net = "remote (Response [''b.com\<newline>''] None)
                    [(''https://lists.example/domains.txt'',
                      Response [''B.com\<newline>'', ''mail.c.com\<newline>'', ''d.com\<newline>''] None)]"
  let ?w = "\<lparr>output_file = Some ''a.com\<newline>b.com\<newline>'', console = []\<rparr>"
  have a: "fetch_domains_from_url id ?net ALLOWLIST_URL = Inr ({|''b.com''|}, [])"
    by code_simp
  have f: "fetch_multiple_sources id ?net [''https://lists.example/domains.txt'']
             = Inr ({|''b.com'', ''c.com'', ''d.com''|}, [])"
    by code_simp
  have p: "apply_allowlist (load_existing_domains (output_file ?w)) {|''b.com''|}
             = ({|''a.com''|}, 1)"
    by code_simp
  have q: "apply_allowlist {|''b.com'', ''c.com'', ''d.com''|} {|''b.com''|}
             = ({|''c.com'', ''d.com''|}, 1)"
    by code_simp
  have rt: "\<not> ({|''c.com'', ''d.com''|} = {||} \<and> (1::int) = 0) \<and>
            {|''a.com''|} |\<union>| {|''c.com'', ''d.com''|} \<noteq> load_existing_domains (output_file ?w)
              \<longrightarrow> load_existing_domains
                    (Some (write_domains ({|''a.com''|} |\<union>| {|''c.com'', ''d.com''|})))
                  = {|''a.com''|} |\<union>| {|''c.com'', ''d.com''|}"
    by code_simp
  show ?thesis
    by (rule refresh_twice [OF a f p q rt])
qed

text \<open>
  The claim as first stated fails. A source line \<open>a@b@c.com\<close> is normalised to \<open>b@c.com\<close>
  and written; the second run reads that line back as \<open>c.com\<close>, finds \<open>b@c.com\<close> new
  again, returns 1 and rewrites the file with two lines.
\<close>

theorem refresh_twice_counterexample:
  "process_sources id
       (remote unreachable [(''https://lists.example/domains.txt'',
                             Response [''a@b@c.com\<newline>''] None)])
       [''https://lists.example/domains.txt'']
       \<lparr>output_file = None, console = []\<rparr>
     = Inr (1, \<lparr>output_file = Some ''b@c.com\<newline>'',
                console = [warn_unreachable ALLOWLIST_URL, warn_no_allowlist,
                           (INFO, ''Added 1 new disposable domains.'')]\<rparr>) \<and>
   process_sources id
       (remote unreachable [(''https://lists.example/domains.txt'',
                             Response [''a@b@c.com\<newline>''] None)])
       [''https://lists.example/domains.txt'']
       \<lparr>output_file = Some ''b@c.com\<newline>'',
         console = [warn_unreachable ALLOWLIST_URL, warn_no_allowlist,
                           (INFO, ''Added 1 new disposable domains.'')]\<rparr>
     = Inr (1, \<lparr>output_file = Some ''b@c.com\<newline>c.com\<newline>'',
                console = [warn_unreachable ALLOWLIST_URL, warn_no_allowlist,
                           (INFO, ''Added 1 new disposable domains.''),
                           warn_unreachable ALLOWLIST_URL, warn_no_allowlist,
                           (INFO, ''Added 1 new disposable domains.'')]\<rparr>) \<and>
   (1::int) \<noteq> 0 \<and>
   ''b@c.com\<newline>c.com\<newline>'' \<noteq> ''b@c.com\<newline>''"
  by code_simp




end
